theory Spec2Isabelle
  imports Complex_Main
begin

section \<open>The loop sampler controller (loop_sampler.py)\<close>

text \<open>
  A shallow embedding of the control-state engine of \<^verbatim>\<open>loop_sampler.py\<close>: the ADSR
  parameter store, the loop window, the voice tracker, the message log, the keyboard note
  mapper and the key handlers of \<^verbatim>\<open>SamplerTUI\<close>.

  Python's \<^verbatim>\<open>float\<close> values are read as exact real numbers: \<open>max\<close>, \<open>min\<close>,
  \<open>abs\<close> and the comparisons are those of \<^typ>\<open>real\<close>, and \<open>+\<close>, \<open>-\<close>, \<open>*\<close>, \<open>/\<close> do not
  round. NaN and the infinities are outside the model, and so is the last-digit error of
  a float subtraction. Python's \<^verbatim>\<open>int\<close> is \<^typ>\<open>int\<close>.
  The drawing code reads the state and writes the screen only; it is not modelled.
\<close>

subsection \<open>Errors\<close>

text \<open>
  The exceptions of the modelled functions that nothing catches. \<open>KeyError\<close> is
  \<^verbatim>\<open>self.ranges[name]\<close> on a name without a range; \<open>AttributeError\<close> stands for
  \<^verbatim>\<open>getattr(self, name)\<close> on a name that is not one of the four float fields (Python raises
  AttributeError there, or TypeError in the arithmetic when the attribute exists and is
  not a number).
\<close>

datatype error = KeyError | AttributeError

subsection \<open>MessageLog\<close>

text \<open>
  The text of a log entry is kept as its format and its arguments; the rendering of a
  float with \<^verbatim>\<open>:.3f\<close>, the measured send time of a note-on line and the
  \<^verbatim>\<open>[HH:MM:SS]\<close> prefix that \<^verbatim>\<open>push\<close> reads from the wall clock are left out.
\<close>

datatype log_text =
    Ready
  | Quitting
  | FailedNoteOn string
  | FailedNoteOff string
  | FailedParam string
  | FailedLoop string
  | NoteOnLine string int real
  | NoteOffLine string int
  | ParamLine string real
  | LoopLine string real real
  | PanicNoActive
  | PanicSent nat

record MessageLog =
  max_entries :: int
  entries :: "log_text list"

definition new_MessageLog :: MessageLog where
  "new_MessageLog = \<lparr>max_entries = 10, entries = []\<rparr>"

definition push :: "log_text \<Rightarrow> MessageLog \<Rightarrow> MessageLog" where
  "push text self =
     (let self = self\<lparr>entries := entries self @ [text]\<rparr>
      in if int (length (entries self)) > max_entries self
         then self\<lparr>entries := tl (entries self)\<rparr>
         else self)"

subsection \<open>ADSR\<close>

record ADSRRange =
  minimum :: real
  maximum :: real
  step :: real

text \<open>
  The dictionary \<^verbatim>\<open>ranges\<close> is an association list read with \<^const>\<open>map_of\<close>; the
  empty list is the empty dictionary, which \<^verbatim>\<open>__post_init__\<close> replaces by the defaults.
\<close>

record ADSR =
  attack :: real
  decay :: real
  sustain :: real
  release :: real
  ranges :: "(string \<times> ADSRRange) list"

definition default_ranges :: "(string \<times> ADSRRange) list" where
  "default_ranges =
     [(''attack'', \<lparr>minimum = 0.001, maximum = 2.0, step = 0.01\<rparr>),
      (''decay'', \<lparr>minimum = 0.001, maximum = 4.0, step = 0.02\<rparr>),
      (''sustain'', \<lparr>minimum = 0.0, maximum = 1.0, step = 0.02\<rparr>),
      (''release'', \<lparr>minimum = 0.005, maximum = 8.0, step = 0.05\<rparr>)]"

definition ADSR_post_init :: "ADSR \<Rightarrow> ADSR" where
  "ADSR_post_init self = (if ranges self = [] then self\<lparr>ranges := default_ranges\<rparr> else self)"

text \<open>\<^verbatim>\<open>ADSR()\<close>, every field at its default.\<close>

definition new_ADSR :: ADSR where
  "new_ADSR =
     ADSR_post_init \<lparr>attack = 0.01, decay = 0.1, sustain = 0.7, release = 0.5, ranges = []\<rparr>"

definition getattr :: "ADSR \<Rightarrow> string \<Rightarrow> error + real" where
  "getattr self name =
     (if name = ''attack'' then Inr (attack self)
      else if name = ''decay'' then Inr (decay self)
      else if name = ''sustain'' then Inr (sustain self)
      else if name = ''release'' then Inr (release self)
      else Inl AttributeError)"

text \<open>
  \<^verbatim>\<open>setattr\<close> is only reached after \<^verbatim>\<open>getattr\<close> returned a float, so with one of the
  four field names; on any other name the four fields stay as they are.
\<close>

definition setattr :: "ADSR \<Rightarrow> string \<Rightarrow> real \<Rightarrow> ADSR" where
  "setattr self name v =
     (if name = ''attack'' then self\<lparr>attack := v\<rparr>
      else if name = ''decay'' then self\<lparr>decay := v\<rparr>
      else if name = ''sustain'' then self\<lparr>sustain := v\<rparr>
      else if name = ''release'' then self\<lparr>release := v\<rparr>
      else self)"

definition ADSR_get :: "ADSR \<Rightarrow> string \<Rightarrow> error + real" where
  "ADSR_get self name = getattr self name"

definition adjust :: "ADSR \<Rightarrow> string \<Rightarrow> int \<Rightarrow> bool \<Rightarrow> error + (bool \<times> ADSR)" where
  "adjust self name direction coarse =
     (case map_of (ranges self) name of
        None \<Rightarrow> Inl KeyError
      | Some rng \<Rightarrow>
          (let step = ADSRRange.step rng * (if coarse then 5 else 1)
           in case getattr self name of
                Inl e \<Rightarrow> Inl e
              | Inr current \<Rightarrow>
                  (let new_value = current + of_int direction * step;
                       new_value = max (minimum rng) (min (maximum rng) new_value)
                   in if \<bar>new_value - current\<bar> < 0.000001 then Inr (False, self)
                      else Inr (True, setattr self name new_value))))"

definition items :: "ADSR \<Rightarrow> (string \<times> real) list" where
  "items self =
     [(''attack'', attack self), (''decay'', decay self),
      (''sustain'', sustain self), (''release'', release self)]"

subsection \<open>LoopParameters\<close>

record LoopParameters =
  start :: real
  end' :: real
  min_span :: real
  step :: real
  coarse_step :: real
  revision :: int

definition clamp :: "real \<Rightarrow> real" where
  "clamp v = max 0.0 (min 1.0 v)"

definition post_init :: "LoopParameters \<Rightarrow> LoopParameters" where
  "post_init self =
     (let self = self\<lparr>start := clamp (start self)\<rparr>;
          self = self\<lparr>end' := clamp (end' self)\<rparr>
      in if end' self - start self < min_span self
         then (let self = self\<lparr>end' := min 1.0 (start self + min_span self)\<rparr>
               in self\<lparr>start := max 0.0 (end' self - min_span self)\<rparr>)
         else self)"

text \<open>The dataclass constructor with its defaults spelled out by the caller.\<close>

definition new_LoopParameters :: "real \<Rightarrow> real \<Rightarrow> real \<Rightarrow> real \<Rightarrow> real \<Rightarrow> LoopParameters" where
  "new_LoopParameters s e ms st cs =
     post_init \<lparr>start = s, end' = e, min_span = ms, step = st, coarse_step = cs, revision = 0\<rparr>"

definition adjust_start :: "real \<Rightarrow> LoopParameters \<Rightarrow> bool \<times> LoopParameters" where
  "adjust_start delta self =
     (let new_start = clamp (start self + delta);
          max_start = end' self - min_span self;
          new_start = (if new_start > max_start then max_start else new_start)
      in if \<bar>new_start - start self\<bar> < 0.000001 then (False, self)
         else (True, self\<lparr>start := new_start, revision := revision self + 1\<rparr>))"

definition adjust_end :: "real \<Rightarrow> LoopParameters \<Rightarrow> bool \<times> LoopParameters" where
  "adjust_end delta self =
     (let new_end = clamp (end' self + delta);
          min_end = start self + min_span self;
          new_end = (if new_end < min_end then min_end else new_end)
      in if \<bar>new_end - end' self\<bar> < 0.000001 then (False, self)
         else (True, self\<lparr>end' := new_end, revision := revision self + 1\<rparr>))"

text \<open>A call of one of the two adjusters, and a sequence of such calls.\<close>

datatype loop_call = AdjustStart real | AdjustEnd real

fun apply_loop_call :: "loop_call \<Rightarrow> LoopParameters \<Rightarrow> LoopParameters" where
  "apply_loop_call (AdjustStart delta) self = snd (adjust_start delta self)"
| "apply_loop_call (AdjustEnd delta) self = snd (adjust_end delta self)"



subsection \<open>VoiceTracker\<close>

text \<open>
  The \<^verbatim>\<open>OrderedDict\<close> of voices maps every key to \<^verbatim>\<open>None\<close>, so it is the list of its
  keys in dictionary order: the oldest entry first, the newest last.
\<close>

record VoiceTracker =
  limit :: int
  voices :: "int list"

definition new_VoiceTracker :: "int \<Rightarrow> VoiceTracker" where
  "new_VoiceTracker lmt = \<lparr>limit = lmt, voices = []\<rparr>"

definition note_on :: "int \<Rightarrow> VoiceTracker \<Rightarrow> VoiceTracker" where
  "note_on n self =
     (if n \<in> set (voices self) then self\<lparr>voices := removeAll n (voices self) @ [n]\<rparr>
      else self\<lparr>voices := voices self @ [n]\<rparr>)"

definition note_off :: "int \<Rightarrow> VoiceTracker \<Rightarrow> VoiceTracker" where
  "note_off n self = self\<lparr>voices := removeAll n (voices self)\<rparr>"

definition count :: "VoiceTracker \<Rightarrow> int" where
  "count self = int (length (voices self))"

definition active_notes :: "VoiceTracker \<Rightarrow> int list" where
  "active_notes self = voices self"

subsection \<open>KeyboardNoteMapper\<close>

definition ord :: "char \<Rightarrow> int" where
  "ord c = of_char c"

definition KEY_MAP :: "int \<rightharpoonup> int" where
  "KEY_MAP = map_of
     [(ord CHR ''z'', 60), (ord CHR ''s'', 61), (ord CHR ''x'', 62), (ord CHR ''d'', 63),
      (ord CHR ''c'', 64), (ord CHR ''v'', 65), (ord CHR ''g'', 66), (ord CHR ''b'', 67),
      (ord CHR ''h'', 68), (ord CHR ''n'', 69), (ord CHR ''j'', 70), (ord CHR ''m'', 71),
      (ord CHR '','', 72)]"

record KeyboardNoteMapper =
  active :: "int \<rightharpoonup> bool"

definition new_KeyboardNoteMapper :: KeyboardNoteMapper where
  "new_KeyboardNoteMapper = \<lparr>active = Map.empty\<rparr>"

definition translate :: "int \<Rightarrow> KeyboardNoteMapper \<Rightarrow> (int \<times> bool) option \<times> KeyboardNoteMapper" where
  "translate key_code self =
     (case KEY_MAP key_code of
        None \<Rightarrow> (None, self)
      | Some n \<Rightarrow>
          (let state = (case active self n of None \<Rightarrow> False | Some b \<Rightarrow> b)
           in (Some (n, \<not> state), self\<lparr>active := (active self)(n \<mapsto> \<not> state)\<rparr>)))"

subsection \<open>The OSC client\<close>

text \<open>
  \<^verbatim>\<open>SimpleUDPClient.send_message\<close> either returns or raises \<^verbatim>\<open>OSError\<close>. Which of
  the two happens is the environment's choice: \<open>script\<close> lists the outcomes of the coming
  calls, \<open>None\<close> for a return and \<open>Some text\<close> for an \<^verbatim>\<open>OSError\<close> with that text;
  once the script is used up every call returns. \<open>calls\<close> records every message handed
  to \<^verbatim>\<open>send_message\<close>, in order, whatever its outcome.
\<close>

datatype osc_arg = OscStr string | OscInt int | OscFloat real

type_synonym osc_message = "string \<times> osc_arg list"

record SimpleUDPClient =
  script :: "string option list"
  calls :: "osc_message list"

definition send_message :: "string \<Rightarrow> osc_arg list \<Rightarrow> SimpleUDPClient \<Rightarrow> string option \<times> SimpleUDPClient" where
  "send_message address payload self =
     (case script self of
        [] \<Rightarrow> (None, self\<lparr>calls := calls self @ [(address, payload)]\<rparr>)
      | r # rs \<Rightarrow> (r, self\<lparr>script := rs, calls := calls self @ [(address, payload)]\<rparr>))"

definition OSC_NOTE_ON :: string where "OSC_NOTE_ON = ''/note_on''"
definition OSC_NOTE_OFF :: string where "OSC_NOTE_OFF = ''/note_off''"
definition OSC_PARAM :: string where "OSC_PARAM = ''/param''"
definition OSC_LOOP :: string where "OSC_LOOP = ''/loopSampler/loop''"

subsection \<open>SamplerTUI\<close>

text \<open>
  The fields of the controller that the handlers read or write. \<open>midi\<close> tells whether a
  MIDI input is open; the messages \<^verbatim>\<open>iter_pending\<close> returns are an input of
  \<open>poll_midi\<close>. The curses window, the host and the port are only drawn.
\<close>

record midi_message =
  msg_type :: string
  msg_note :: int
  msg_velocity :: int

record SamplerTUI =
  client :: SimpleUDPClient
  sample_key :: string
  voice_limit :: int
  default_velocity :: real
  adsr :: ADSR
  loop_params :: LoopParameters
  msg_log :: MessageLog
  voice_tracker :: VoiceTracker
  keyboard_mapper :: KeyboardNoteMapper
  midi :: bool

definition push_log :: "log_text \<Rightarrow> SamplerTUI \<Rightarrow> SamplerTUI" where
  "push_log text self = self\<lparr>msg_log := push text (msg_log self)\<rparr>"

definition send_note_on :: "int \<Rightarrow> real \<Rightarrow> string \<Rightarrow> SamplerTUI \<Rightarrow> SamplerTUI" where
  "send_note_on n velocity source self =
     (let payload = [OscStr (sample_key self), OscInt n, OscFloat velocity];
          (err, c) = send_message OSC_NOTE_ON payload (client self);
          self = self\<lparr>client := c\<rparr>
      in case err of
           Some e \<Rightarrow> push_log (FailedNoteOn e) self
         | None \<Rightarrow>
             (let self = self\<lparr>voice_tracker := note_on n (voice_tracker self)\<rparr>
              in push_log (NoteOnLine source n velocity) self))"

definition send_note_off :: "int \<Rightarrow> string \<Rightarrow> SamplerTUI \<Rightarrow> SamplerTUI" where
  "send_note_off n source self =
     (let payload = [OscStr (sample_key self), OscInt n];
          (err, c) = send_message OSC_NOTE_OFF payload (client self);
          self = self\<lparr>client := c\<rparr>
      in case err of
           Some e \<Rightarrow> push_log (FailedNoteOff e) self
         | None \<Rightarrow>
             (let self = self\<lparr>voice_tracker := note_off n (voice_tracker self)\<rparr>
              in push_log (NoteOffLine source n) self))"

definition send_param_update :: "string \<Rightarrow> real \<Rightarrow> SamplerTUI \<Rightarrow> SamplerTUI" where
  "send_param_update param v self =
     (let payload = [OscStr param, OscFloat v];
          (err, c) = send_message OSC_PARAM payload (client self);
          self = self\<lparr>client := c\<rparr>
      in case err of
           Some e \<Rightarrow> push_log (FailedParam e) self
         | None \<Rightarrow> self)"

definition send_initial_params :: "SamplerTUI \<Rightarrow> SamplerTUI" where
  "send_initial_params self =
     fold (\<lambda>(name, v) s. send_param_update name v s) (items (adsr self)) self"

definition payload :: "LoopParameters \<Rightarrow> osc_arg list" where
  "payload self = [OscFloat (start self), OscFloat (end' self), OscFloat (of_int (revision self))]"

definition send_loop_update :: "string \<Rightarrow> SamplerTUI \<Rightarrow> SamplerTUI" where
  "send_loop_update reason self =
     (let (err, c) = send_message OSC_LOOP (payload (loop_params self)) (client self);
          self = self\<lparr>client := c\<rparr>
      in case err of
           Some e \<Rightarrow> push_log (FailedLoop e) self
         | None \<Rightarrow> push_log (LoopLine reason (start (loop_params self)) (end' (loop_params self))) self)"

text \<open>
  \<^verbatim>\<open>SamplerTUI.__init__\<close>; \<open>midi_open\<close> says whether \<^verbatim>\<open>midi_port\<close> named a port
  (anything but \<^verbatim>\<open>none\<close>) and \<^verbatim>\<open>MidiInput\<close> opened it.
\<close>

definition new_SamplerTUI ::
  "SimpleUDPClient \<Rightarrow> string \<Rightarrow> int \<Rightarrow> real \<Rightarrow> ADSR \<Rightarrow> LoopParameters \<Rightarrow> bool \<Rightarrow> SamplerTUI" where
  "new_SamplerTUI c key lmt velocity a lp midi_open =
     (let self = \<lparr>client = c, sample_key = key, voice_limit = lmt,
                   default_velocity = max 0.0 (min 1.0 velocity),
                   adsr = a, loop_params = lp, msg_log = new_MessageLog,
                   voice_tracker = new_VoiceTracker lmt,
                   keyboard_mapper = new_KeyboardNoteMapper, midi = midi_open\<rparr>;
          self = send_initial_params self
      in send_loop_update ''init'' self)"

definition poll_midi :: "midi_message list \<Rightarrow> SamplerTUI \<Rightarrow> SamplerTUI" where
  "poll_midi pending self =
     (if \<not> midi self then self
      else fold (\<lambda>message s.
             if msg_type message = ''note_on'' \<and> msg_velocity message > 0
             then send_note_on (msg_note message) (of_int (msg_velocity message) / 127.0) ''MIDI'' s
             else if msg_type message = ''note_off'' \<or>
                     (msg_type message = ''note_on'' \<and> msg_velocity message = 0)
             then send_note_off (msg_note message) ''MIDI'' s
             else s) pending self)"

definition adsr_mapping :: "(int \<times> string \<times> int \<times> bool) list" where
  "adsr_mapping =
     [(ord CHR ''t'', ''attack'', -1, False), (ord CHR ''T'', ''attack'', 1, True),
      (ord CHR ''y'', ''decay'', -1, False), (ord CHR ''Y'', ''decay'', 1, True),
      (ord CHR ''u'', ''sustain'', -1, False), (ord CHR ''U'', ''sustain'', 1, True),
      (ord CHR ''i'', ''release'', -1, False), (ord CHR ''I'', ''release'', 1, True)]"

definition handle_adsr_keys :: "int \<Rightarrow> SamplerTUI \<Rightarrow> error + (bool \<times> SamplerTUI)" where
  "handle_adsr_keys key self =
     (case map_of adsr_mapping key of
        None \<Rightarrow> Inr (False, self)
      | Some (name, direction, coarse) \<Rightarrow>
          (case adjust (adsr self) name direction coarse of
             Inl e \<Rightarrow> Inl e
           | Inr (changed, a) \<Rightarrow>
               (let self = self\<lparr>adsr := a\<rparr>
                in if \<not> changed then Inr (True, self)
                   else (case ADSR_get (adsr self) name of
                           Inl e \<Rightarrow> Inl e
                         | Inr v \<Rightarrow>
                             (let self = send_param_update name v self
                              in Inr (True, push_log (ParamLine name v) self))))))"

definition adjust_loop_start :: "real \<Rightarrow> SamplerTUI \<Rightarrow> bool \<times> SamplerTUI" where
  "adjust_loop_start delta self =
     (let (changed, lp) = adjust_start delta (loop_params self);
          self = self\<lparr>loop_params := lp\<rparr>
      in if changed then (True, send_loop_update ''start'' self) else (False, self))"

definition adjust_loop_end :: "real \<Rightarrow> SamplerTUI \<Rightarrow> bool \<times> SamplerTUI" where
  "adjust_loop_end delta self =
     (let (changed, lp) = adjust_end delta (loop_params self);
          self = self\<lparr>loop_params := lp\<rparr>
      in if changed then (True, send_loop_update ''end'' self) else (False, self))"

text \<open>The key codes of the arrow keys, as the curses library defines them.\<close>

definition KEY_DOWN :: int where "KEY_DOWN = 258"
definition KEY_UP :: int where "KEY_UP = 259"
definition KEY_LEFT :: int where "KEY_LEFT = 260"
definition KEY_RIGHT :: int where "KEY_RIGHT = 261"

definition handle_loop_keys :: "int \<Rightarrow> SamplerTUI \<Rightarrow> bool \<times> SamplerTUI" where
  "handle_loop_keys key self =
     (let step = step (loop_params self);
          coarse = coarse_step (loop_params self)
      in if key = ord CHR ''a'' \<or> key = KEY_LEFT then adjust_loop_start (- step) self
         else if key = ord CHR ''A'' then adjust_loop_start (- coarse) self
         else if key = ord CHR ''d'' \<or> key = KEY_RIGHT then adjust_loop_start step self
         else if key = ord CHR ''D'' then adjust_loop_start coarse self
         else if key = ord CHR ''j'' \<or> key = KEY_DOWN then adjust_loop_end (- step) self
         else if key = ord CHR ''J'' then adjust_loop_end (- coarse) self
         else if key = ord CHR ''l'' \<or> key = KEY_UP then adjust_loop_end step self
         else if key = ord CHR ''L'' then adjust_loop_end coarse self
         else (False, self))"

definition handle_keyboard_note :: "int \<Rightarrow> SamplerTUI \<Rightarrow> bool \<times> SamplerTUI" where
  "handle_keyboard_note key self =
     (let (translation, km) = translate key (keyboard_mapper self);
          self = self\<lparr>keyboard_mapper := km\<rparr>
      in case translation of
           None \<Rightarrow> (False, self)
         | Some (n, is_on) \<Rightarrow>
             if is_on then (True, send_note_on n (default_velocity self) ''KEY'' self)
             else (True, send_note_off n ''KEY'' self))"

definition panic_all_notes_off :: "SamplerTUI \<Rightarrow> SamplerTUI" where
  "panic_all_notes_off self =
     (let active = active_notes (voice_tracker self)
      in if active = [] then push_log PanicNoActive self
         else (let self = fold (\<lambda>n s. send_note_off n ''PANIC'' s) active self
               in push_log (PanicSent (length active)) self))"

text \<open>
  The body of the loop of \<^verbatim>\<open>run\<close> after \<^verbatim>\<open>getch\<close> returned \<open>key\<close>. The result
  says whether the loop stops (the quit key) and, beside the state, which of the three
  key handlers were called, in the order of the calls.
\<close>

datatype handler = LoopKeys | AdsrKeys | KeyboardNote

definition dispatch_key :: "int \<Rightarrow> SamplerTUI \<Rightarrow> error + (bool \<times> handler list \<times> SamplerTUI)" where
  "dispatch_key key self =
     (if key = -1 then Inr (False, [], self)
      else if key = ord CHR ''q'' \<or> key = ord CHR ''Q'' then Inr (True, [], push_log Quitting self)
      else if key = ord CHR '';'' then Inr (False, [], panic_all_notes_off self)
      else (case handle_loop_keys key self of
              (True, self) \<Rightarrow> Inr (False, [LoopKeys], self)
            | (False, self) \<Rightarrow>
                (case handle_adsr_keys key self of
                   Inl e \<Rightarrow> Inl e
                 | Inr (True, self) \<Rightarrow> Inr (False, [LoopKeys, AdsrKeys], self)
                 | Inr (False, self) \<Rightarrow>
                     (let (_, self) = handle_keyboard_note key self
                      in Inr (False, [LoopKeys, AdsrKeys, KeyboardNote], self)))))"

text \<open>
  One pass of the loop: drain the MIDI input, then read one key. \<open>run\<close> goes through the
  passes of a finite stretch of input (the pending MIDI messages and the key of each
  pass) and stops at the quit key or at an uncaught exception; the state it returns is
  the state after the last of these passes.
\<close>

definition tick :: "midi_message list \<times> int \<Rightarrow> SamplerTUI \<Rightarrow> error + (bool \<times> SamplerTUI)" where
  "tick input self =
     (let self = poll_midi (fst input) self
      in case dispatch_key (snd input) self of
           Inl e \<Rightarrow> Inl e
         | Inr (stop, _, self) \<Rightarrow> Inr (stop, self))"

fun ticks :: "(midi_message list \<times> int) list \<Rightarrow> SamplerTUI \<Rightarrow> error + SamplerTUI" where
  "ticks [] self = Inr self"
| "ticks (input # inputs) self =
     (case tick input self of
        Inl e \<Rightarrow> Inl e
      | Inr (stop, self) \<Rightarrow> if stop then Inr self else ticks inputs self)"

definition run :: "(midi_message list \<times> int) list \<Rightarrow> SamplerTUI \<Rightarrow> error + SamplerTUI" where
  "run inputs self = ticks inputs (push_log Ready self)"

subsection \<open>Call sequences and the notions the properties are stated with\<close>

text \<open>The four parameter names, and a value lying within the range of its name.\<close>

definition param_names :: "string list" where
  "param_names = [''attack'', ''decay'', ''sustain'', ''release'']"

definition within_range :: "ADSR \<Rightarrow> string \<Rightarrow> bool" where
  "within_range self name =
     (case (map_of (ranges self) name, getattr self name) of
        (Some rng, Inr v) \<Rightarrow> minimum rng \<le> v \<and> v \<le> maximum rng
      | _ \<Rightarrow> False)"

text \<open>A sequence of \<^verbatim>\<open>adjust\<close> calls; an exception ends it.\<close>

fun adjusts :: "(string \<times> int \<times> bool) list \<Rightarrow> ADSR \<Rightarrow> error + ADSR" where
  "adjusts [] self = Inr self"
| "adjusts ((name, direction, coarse) # cs) self =
     (case adjust self name direction coarse of
        Inl e \<Rightarrow> Inl e
      | Inr (_, self) \<Rightarrow> adjusts cs self)"

text \<open>A sequence of \<^verbatim>\<open>note_on\<close> and \<^verbatim>\<open>note_off\<close> calls on a voice tracker.\<close>

datatype voice_call = NoteOn int | NoteOff int

fun apply_voice_call :: "voice_call \<Rightarrow> VoiceTracker \<Rightarrow> VoiceTracker" where
  "apply_voice_call (NoteOn n) self = note_on n self"
| "apply_voice_call (NoteOff n) self = note_off n self"

fun voice_calls :: "voice_call list \<Rightarrow> VoiceTracker \<Rightarrow> VoiceTracker" where
  "voice_calls [] self = self"
| "voice_calls (c # cs) self = voice_calls cs (apply_voice_call c self)"

text \<open>
  The notes that are on after a sequence of calls, by the usual reading: on after a
  note-on, off after a note-off, whatever came before.
\<close>

fun sounding_from :: "int set \<Rightarrow> voice_call list \<Rightarrow> int set" where
  "sounding_from S [] = S"
| "sounding_from S (NoteOn n # cs) = sounding_from (insert n S) cs"
| "sounding_from S (NoteOff n # cs) = sounding_from (S - {n}) cs"

definition sounding :: "voice_call list \<Rightarrow> int set" where
  "sounding cs = sounding_from {} cs"

text \<open>
  The same notes ordered by their latest note-on. \<open>newest_first\<close> reads the calls from
  the latest to the earliest: the latest call of a note decides, and a note whose latest
  call is a note-on is listed at that call.
\<close>

fun newest_first :: "voice_call list \<Rightarrow> int list \<Rightarrow> int list" where
  "newest_first [] seen = []"
| "newest_first (NoteOn n # cs) seen =
     (if n \<in> set seen then newest_first cs seen else n # newest_first cs (n # seen))"
| "newest_first (NoteOff n # cs) seen = newest_first cs (n # seen)"

definition by_recency :: "voice_call list \<Rightarrow> int list" where
  "by_recency cs = rev (newest_first (rev cs) [])"

text \<open>
  The notes of a snapshot whose note-off the client delivers, given the outcomes of the
  coming calls (see \<open>script\<close>), and the note-off message of a note.
\<close>

fun delivered :: "int list \<Rightarrow> string option list \<Rightarrow> int list" where
  "delivered [] outcomes = []"
| "delivered (n # ns) [] = n # delivered ns []"
| "delivered (n # ns) (None # outcomes) = n # delivered ns outcomes"
| "delivered (n # ns) (Some e # outcomes) = delivered ns outcomes"

definition note_off_message :: "SamplerTUI \<Rightarrow> int \<Rightarrow> osc_message" where
  "note_off_message self n = (OSC_NOTE_OFF, [OscStr (sample_key self), OscInt n])"

text \<open>The messages a handler handed to the client: the calls after those of the state before.\<close>

definition new_calls :: "SamplerTUI \<Rightarrow> SamplerTUI \<Rightarrow> osc_message list" where
  "new_calls before after = drop (length (calls (client before))) (calls (client after))"

text \<open>
  The controller that \<^verbatim>\<open>curses_main\<close> builds from the default command line (sample key
  \<^verbatim>\<open>plasma\<close>, voice limit 8, default velocity 0.6, \<^verbatim>\<open>ADSR()\<close>) with the MIDI input off,
  for a given loop window and given outcomes of the network sends; and the loop window of
  the default command line.
\<close>

definition default_TUI :: "string option list \<Rightarrow> LoopParameters \<Rightarrow> SamplerTUI" where
  "default_TUI outcomes lp =
     new_SamplerTUI \<lparr>script = outcomes, calls = []\<rparr> ''plasma'' 8 0.6 new_ADSR lp False"

definition default_loop :: LoopParameters where
  "default_loop = new_LoopParameters 0.0 1.0 0.02 0.01 0.05"

text \<open>The key codes that \<open>handle_loop_keys\<close> tests for, in the order of its tests.\<close>

definition loop_keys :: "int list" where
  "loop_keys =
     [ord CHR ''a'', KEY_LEFT, ord CHR ''A'', ord CHR ''d'', KEY_RIGHT, ord CHR ''D'',
      ord CHR ''j'', KEY_DOWN, ord CHR ''J'', ord CHR ''l'', KEY_UP, ord CHR ''L'']"

section \<open>Properties of LoopParameters\<close>

lemma min_span_post_init [simp]: "min_span (post_init self) = min_span self"
  by (simp add: post_init_def Let_def)

lemma min_span_adjust_start [simp]: "min_span (snd (adjust_start delta self)) = min_span self"
  by (simp add: adjust_start_def Let_def)

lemma min_span_adjust_end [simp]: "min_span (snd (adjust_end delta self)) = min_span self"
  by (simp add: adjust_end_def Let_def)

lemma min_span_loop_call [simp]: "min_span (apply_loop_call c self) = min_span self"
  by (cases c) simp_all








text \<open>
  C4: a call of \<open>adjust_start\<close> or \<open>adjust_end\<close> that returns true increases
  \<open>revision\<close> by exactly 1; a call that returns false leaves the whole window, so
  \<open>revision\<close>, \<open>start\<close> and \<open>end\<close>, unchanged.
\<close>

theorem revision_counts_changes:
  "(let (changed, self') = adjust_start delta self
    in if changed then revision self' = revision self + 1 else self' = self) \<and>
   (let (changed, self') = adjust_end delta self
    in if changed then revision self' = revision self + 1 else self' = self)"
  by (simp add: adjust_start_def adjust_end_def Let_def)

section \<open>Properties of ADSR\<close>

text \<open>Writing and reading a field by name, one adjustment, and a sequence of them.\<close>

lemma getattr_setattr:
  "name \<in> set param_names \<Longrightarrow> getattr (setattr self name v) name = Inr v"
  by (auto simp: param_names_def getattr_def setattr_def)

lemma getattr_setattr_other:
  "n \<noteq> name \<Longrightarrow> getattr (setattr self name v) n = getattr self n"
  by (auto simp: getattr_def setattr_def)

lemma ranges_setattr [simp]: "ranges (setattr self name v) = ranges self"
  by (simp add: setattr_def)

lemma adjust_step:
  assumes "map_of (ranges self) name = Some rng" and "getattr self name = Inr current"
  shows "adjust self name direction coarse =
     (let c = max (minimum rng) (min (maximum rng)
                (current + of_int direction * ADSRRange.step rng * (if coarse then 5 else 1)))
      in if \<bar>c - current\<bar> < 0.000001 then Inr (False, self)
         else Inr (True, setattr self name c))"
  using assms by (simp add: adjust_def Let_def mult.assoc)

lemma within_range_adjust:
  assumes "\<forall>n \<in> set param_names. within_range self n" and "name \<in> set param_names"
  shows "\<exists>b self'. adjust self name direction coarse = Inr (b, self') \<and>
           (\<forall>n \<in> set param_names. within_range self' n)"
proof -
  from assms have "within_range self name" by blast
  then obtain rng current where rng: "map_of (ranges self) name = Some rng"
    and cur: "getattr self name = Inr current"
    and inr: "minimum rng \<le> current" "current \<le> maximum rng"
    by (auto simp: within_range_def split: option.splits sum.splits)
  define c where "c = max (minimum rng) (min (maximum rng)
                (current + of_int direction * ADSRRange.step rng * (if coarse then 5 else 1)))"
  have c_in: "minimum rng \<le> c" "c \<le> maximum rng"
    using inr by (auto simp: c_def)
  have step: "adjust self name direction coarse =
      (if \<bar>c - current\<bar> < 0.000001 then Inr (False, self) else Inr (True, setattr self name c))"
    using adjust_step [OF rng cur] by (simp add: c_def Let_def)
  have "\<forall>n \<in> set param_names. within_range (setattr self name c) n"
  proof
    fix n assume n: "n \<in> set param_names"
    show "within_range (setattr self name c) n"
    proof (cases "n = name")
      case True
      then show ?thesis
        using rng c_in assms(2) by (simp add: within_range_def getattr_setattr)
    next
      case False
      then show ?thesis
        using assms(1) n by (simp add: within_range_def getattr_setattr_other)
    qed
  qed
  then show ?thesis
    using step assms(1) by auto
qed

lemma within_range_adjusts:
  assumes "\<forall>n \<in> set param_names. within_range self n"
      and "\<forall>c \<in> set cs. fst c \<in> set param_names"
  shows "\<exists>self'. adjusts cs self = Inr self' \<and> (\<forall>n \<in> set param_names. within_range self' n)"
  using assms
proof (induction cs arbitrary: self)
  case Nil
  then show ?case by simp
next
  case (Cons c cs)
  obtain name direction coarse where c: "c = (name, direction, coarse)"
    by (cases c) auto
  with Cons.prems have "name \<in> set param_names" by simp
  from within_range_adjust [OF Cons.prems(1) this, of direction coarse]
  obtain b self' where a: "adjust self name direction coarse = Inr (b, self')"
    and w: "\<forall>n \<in> set param_names. within_range self' n" by blast
  from Cons.IH [OF w] Cons.prems(2)
  obtain self'' where "adjusts cs self' = Inr self''"
    and "\<forall>n \<in> set param_names. within_range self'' n" by auto
  then show ?case
    using a c by simp
qed

text \<open>
  C5: for a parameter name among attack, decay, sustain and release that has a range,
  \<open>adjust\<close> computes the clamp of \<open>current + direction * step * (5 if coarse else 1)\<close>
  to \<open>[minimum, maximum]\<close>; it returns false and leaves the store as it is when the
  clamped value is less than \<open>0.000001\<close> away from the current one, and otherwise
  stores the clamped value and returns true. So when the four values start within their
  ranges, every sequence of adjustments of these names runs without an exception and
  leaves the four values within their ranges (after each call, a sequence ending at each
  of its prefixes).
\<close>

theorem adjust_clamps:
  assumes "name \<in> set param_names"
      and "map_of (ranges self) name = Some rng"
      and "getattr self name = Inr current"
  shows "(let c = max (minimum rng) (min (maximum rng)
                   (current + of_int direction * ADSRRange.step rng * (if coarse then 5 else 1)))
          in adjust self name direction coarse =
               (if \<bar>c - current\<bar> < 0.000001 then Inr (False, self)
                else Inr (True, setattr self name c)) \<and>
             getattr (setattr self name c) name = Inr c) \<and>
         ((\<forall>n \<in> set param_names. within_range self n) \<and>
          (\<forall>c \<in> set cs. fst c \<in> set param_names) \<longrightarrow>
          (\<exists>self'. adjusts cs self = Inr self' \<and>
                   (\<forall>n \<in> set param_names. within_range self' n)))"
  using adjust_step [OF assms(2,3)] getattr_setattr [OF assms(1)] within_range_adjusts
  by (simp add: Let_def)

theorem adjust_clamps_witness:
  "(let c = max 0.001 (min 2 (0.01 + of_int (-1) * 0.01 * (if False then 5 else 1)))
    in adjust new_ADSR ''attack'' (-1) False =
         (if \<bar>c - 0.01\<bar> < 0.000001 then Inr (False, new_ADSR)
          else Inr (True, setattr new_ADSR ''attack'' c)) \<and>
       getattr (setattr new_ADSR ''attack'' c) ''attack'' = Inr c) \<and>
   (\<exists>self'. adjusts [(''attack'', -1, False), (''attack'', -1, False), (''sustain'', 1, True)]
              new_ADSR = Inr self' \<and>
            (\<forall>n \<in> set param_names. within_range self' n))"
proof -
  have n: "''attack'' \<in> set param_names"
    by (simp add: param_names_def)
  have r: "map_of (ranges new_ADSR) ''attack'' = Some \<lparr>minimum = 0.001, maximum = 2.0, step = 0.01\<rparr>"
    by (simp add: new_ADSR_def ADSR_post_init_def default_ranges_def)
  have g: "getattr new_ADSR ''attack'' = Inr 0.01"
    by (simp add: new_ADSR_def ADSR_post_init_def getattr_def)
  have w: "\<forall>n \<in> set param_names. within_range new_ADSR n"
    by (simp add: param_names_def within_range_def new_ADSR_def ADSR_post_init_def
        default_ranges_def getattr_def)
  have c: "\<forall>c \<in> set [(''attack'', -1, False), (''attack'', -1, False), (''sustain'', 1::int, True)].
             fst c \<in> set param_names"
    by (simp add: param_names_def)
  show ?thesis
    using adjust_clamps [OF n r g, of "-1" False
        "[(''attack'', -1, False), (''attack'', -1, False), (''sustain'', 1, True)]"] w c
    by simp
qed

section \<open>Properties of VoiceTracker\<close>

text \<open>
  Both tracker operations filter the list of voices; the tracker reached by a sequence
  of calls holds the sounding notes, each once, in the order of their latest note-on.
\<close>

lemma filter_neq_absent: "n \<notin> set xs \<Longrightarrow> filter (\<lambda>m. m \<noteq> n) xs = xs"
  by (induction xs) auto

lemma length_filter_neq_present:
  "distinct xs \<Longrightarrow> n \<in> set xs \<Longrightarrow> Suc (length (filter (\<lambda>m. m \<noteq> n) xs)) = length xs"
  by (induction xs) (auto simp: filter_neq_absent)

lemma voices_note_on: "voices (note_on n self) = filter (\<lambda>m. m \<noteq> n) (voices self) @ [n]"
proof (cases "n \<in> set (voices self)")
  case True
  then show ?thesis by (simp add: note_on_def removeAll_filter_not_eq) (metis)
next
  case False
  then show ?thesis by (simp add: note_on_def filter_neq_absent)
qed

lemma voices_note_off: "voices (note_off n self) = filter (\<lambda>m. m \<noteq> n) (voices self)"
  by (simp add: note_off_def removeAll_filter_not_eq) metis

lemma voice_calls_snoc: "voice_calls (cs @ [c]) self = apply_voice_call c (voice_calls cs self)"
  by (induction cs arbitrary: self) simp_all

lemma newest_first_seen:
  "newest_first cs seen = filter (\<lambda>n. n \<notin> set seen) (newest_first cs [])"
proof (induction cs arbitrary: seen)
  case Nil
  then show ?case by simp
next
  case (Cons c cs)
  show ?case
  proof (cases c)
    case (NoteOn n)
    have "newest_first cs [n] = filter (\<lambda>m. m \<notin> set [n]) (newest_first cs [])"
      by (rule Cons.IH)
    moreover have "newest_first cs (n # seen) = filter (\<lambda>m. m \<notin> set (n # seen)) (newest_first cs [])"
      by (rule Cons.IH)
    moreover have "newest_first cs seen = filter (\<lambda>m. m \<notin> set seen) (newest_first cs [])"
      by (rule Cons.IH)
    ultimately show ?thesis
      using NoteOn by (auto intro: filter_cong)
  next
    case (NoteOff n)
    have "newest_first cs [n] = filter (\<lambda>m. m \<notin> set [n]) (newest_first cs [])"
      by (rule Cons.IH)
    moreover have "newest_first cs (n # seen) = filter (\<lambda>m. m \<notin> set (n # seen)) (newest_first cs [])"
      by (rule Cons.IH)
    ultimately show ?thesis
      using NoteOff by (auto intro: filter_cong)
  qed
qed

lemma by_recency_snoc_on: "by_recency (cs @ [NoteOn n]) = filter (\<lambda>m. m \<noteq> n) (by_recency cs) @ [n]"
  using newest_first_seen [of "rev cs" "[n]"] by (simp add: by_recency_def rev_filter)

lemma by_recency_snoc_off: "by_recency (cs @ [NoteOff n]) = filter (\<lambda>m. m \<noteq> n) (by_recency cs)"
  using newest_first_seen [of "rev cs" "[n]"] by (simp add: by_recency_def rev_filter)

lemma voices_by_recency: "voices (voice_calls cs (new_VoiceTracker lmt)) = by_recency cs"
proof (induction cs rule: rev_induct)
  case Nil
  then show ?case by (simp add: new_VoiceTracker_def by_recency_def)
next
  case (snoc c cs)
  then show ?case
    by (cases c)
      (simp_all add: voice_calls_snoc voices_note_on voices_note_off
        by_recency_snoc_on by_recency_snoc_off)
qed

lemma distinct_note_on: "distinct (voices self) \<Longrightarrow> distinct (voices (note_on n self))"
  by (simp add: voices_note_on)

lemma distinct_note_off: "distinct (voices self) \<Longrightarrow> distinct (voices (note_off n self))"
  by (simp add: voices_note_off)

lemma voice_calls_sounding:
  "distinct (voices self) \<Longrightarrow>
   distinct (voices (voice_calls cs self)) \<and>
   set (voices (voice_calls cs self)) = sounding_from (set (voices self)) cs"
proof (induction cs arbitrary: self)
  case Nil
  then show ?case by simp
next
  case (Cons c cs)
  show ?case
  proof (cases c)
    case (NoteOn n)
    have "set (voices (note_on n self)) = insert n (set (voices self))"
      by (auto simp: voices_note_on)
    then show ?thesis
      using Cons.IH [OF distinct_note_on [OF Cons.prems, of n]] NoteOn by simp
  next
    case (NoteOff n)
    have "set (voices (note_off n self)) = set (voices self) - {n}"
      by (auto simp: voices_note_off)
    then show ?thesis
      using Cons.IH [OF distinct_note_off [OF Cons.prems, of n]] NoteOff by simp
  qed
qed

lemma reachable_distinct: "distinct (voices (voice_calls cs (new_VoiceTracker lmt)))"
  using voice_calls_sounding [of "new_VoiceTracker lmt" cs] by (simp add: new_VoiceTracker_def)

text \<open>
  C6: after every sequence of \<open>note_on\<close>/\<open>note_off\<close> calls on a new tracker, \<open>count\<close>
  is the number of distinct notes that are on by the usual on/off reading, and
  \<open>active_notes\<close> lists exactly these notes, ordered by their latest note-on, the most
  recent last. On such a tracker \<open>note_on\<close> of a tracked note keeps \<open>count\<close> and moves the
  note to the last position, \<open>note_on\<close> of a new note puts it last and adds 1 to
  \<open>count\<close>, and \<open>note_off\<close> of an absent note changes nothing.
\<close>

theorem voice_tracker_counts:
  "(let self = voice_calls cs (new_VoiceTracker lmt)
    in count self = int (card (sounding cs)) \<and>
       set (active_notes self) = sounding cs \<and>
       active_notes self = by_recency cs \<and>
       (if n \<in> set (active_notes self)
        then count (note_on n self) = count self \<and> count (note_off n self) = count self - 1
        else count (note_on n self) = count self + 1 \<and> note_off n self = self) \<and>
       active_notes (note_on n self) = filter (\<lambda>m. m \<noteq> n) (active_notes self) @ [n] \<and>
       last (active_notes (note_on n self)) = n \<and>
       active_notes (note_off n self) = filter (\<lambda>m. m \<noteq> n) (active_notes self))"
proof -
  define self where "self = voice_calls cs (new_VoiceTracker lmt)"
  have d: "distinct (voices self)"
    unfolding self_def by (rule reachable_distinct)
  have s: "set (voices self) = sounding cs"
    unfolding self_def sounding_def
    using voice_calls_sounding [of "new_VoiceTracker lmt" cs] by (simp add: new_VoiceTracker_def)
  have c: "count self = int (card (sounding cs))"
    using d s by (simp add: count_def distinct_card [symmetric])
  have r: "active_notes self = by_recency cs"
    unfolding self_def active_notes_def by (rule voices_by_recency)
  have v: "active_notes self = voices self"
    by (simp add: active_notes_def)
  have present: "count (note_on n self) = count self \<and> count (note_off n self) = count self - 1"
    if "n \<in> set (voices self)"
    using length_filter_neq_present [OF d that]
    by (simp add: count_def voices_note_on voices_note_off)
  have absent: "count (note_on n self) = count self + 1 \<and> note_off n self = self"
    if "n \<notin> set (voices self)"
    using that by (simp add: count_def voices_note_on note_off_def filter_neq_absent)
  have "count self = int (card (sounding cs)) \<and>
       set (active_notes self) = sounding cs \<and>
       active_notes self = by_recency cs \<and>
       (if n \<in> set (active_notes self)
        then count (note_on n self) = count self \<and> count (note_off n self) = count self - 1
        else count (note_on n self) = count self + 1 \<and> note_off n self = self) \<and>
       active_notes (note_on n self) = filter (\<lambda>m. m \<noteq> n) (active_notes self) @ [n] \<and>
       last (active_notes (note_on n self)) = n \<and>
       active_notes (note_off n self) = filter (\<lambda>m. m \<noteq> n) (active_notes self)"
    using c s r present absent
    by (simp add: v active_notes_def voices_note_on voices_note_off)
  then show ?thesis
    unfolding self_def Let_def .
qed

section \<open>Properties of KeyboardNoteMapper\<close>

lemma translate_unmapped: "KEY_MAP key = None \<Longrightarrow> translate key m = (None, m)"
  by (simp add: translate_def)

lemma translate_mapped:
  "KEY_MAP key = Some n \<Longrightarrow>
   translate key m =
     (Some (n, active m n \<noteq> Some True),
      m\<lparr>active := (active m)(n \<mapsto> active m n \<noteq> Some True)\<rparr>)"
  by (auto simp: translate_def Let_def split: option.splits)

text \<open>
  C8: a key that \<open>KEY_MAP\<close> does not map yields no translation and leaves the toggle
  state as it is. For a mapped key whose note is off (never pressed, or toggled back),
  three successive presses yield (note, on), (note, off) and (note, on) again.
\<close>

theorem translate_toggles:
  "(KEY_MAP key = None \<longrightarrow> translate key m = (None, m)) \<and>
   (\<forall>n. KEY_MAP key = Some n \<and> active m n \<noteq> Some True \<longrightarrow>
      (let (first, m1) = translate key m;
           (second, m2) = translate key m1;
           (third, m3) = translate key m2
       in first = Some (n, True) \<and> second = Some (n, False) \<and> third = Some (n, True)))"
  by (simp add: translate_unmapped translate_mapped)

lemma KEY_MAP_z: "KEY_MAP (ord CHR ''z'') = Some 60"
  by (simp add: KEY_MAP_def ord_def)

lemma KEY_MAP_q: "KEY_MAP (ord CHR ''q'') = None"
  by (simp add: KEY_MAP_def ord_def)

theorem translate_toggles_witness:
  "translate (ord CHR ''q'') new_KeyboardNoteMapper = (None, new_KeyboardNoteMapper) \<and>
   (let (first, m1) = translate (ord CHR ''z'') new_KeyboardNoteMapper;
        (second, m2) = translate (ord CHR ''z'') m1;
        (third, m3) = translate (ord CHR ''z'') m2
    in first = Some (60, True) \<and> second = Some (60, False) \<and> third = Some (60, True))"
proof -
  have off: "active new_KeyboardNoteMapper 60 \<noteq> Some True"
    by (simp add: new_KeyboardNoteMapper_def)
  show ?thesis
    using translate_toggles [of "ord CHR ''q''" new_KeyboardNoteMapper]
      translate_toggles [of "ord CHR ''z''" new_KeyboardNoteMapper] KEY_MAP_z KEY_MAP_q off
    by blast
qed

section \<open>Properties of SamplerTUI\<close>

subsection \<open>The controller after start-up\<close>

text \<open>
  The state the constructor leaves when its five sends (four parameters, one loop
  update) are delivered, with further outcomes still to come or with a network that
  always delivers; and the definitions that a concrete run of the handlers unfolds.
\<close>

lemma default_TUI_started:
  "default_TUI (None # None # None # None # None # outcomes) lp =
     \<lparr>client = \<lparr>script = outcomes,
                 calls = [(OSC_PARAM, [OscStr ''attack'', OscFloat 0.01]),
                          (OSC_PARAM, [OscStr ''decay'', OscFloat 0.1]),
                          (OSC_PARAM, [OscStr ''sustain'', OscFloat 0.7]),
                          (OSC_PARAM, [OscStr ''release'', OscFloat 0.5]),
                          (OSC_LOOP, payload lp)]\<rparr>,
      sample_key = ''plasma'', voice_limit = 8, default_velocity = 0.6,
      adsr = new_ADSR, loop_params = lp,
      msg_log = \<lparr>max_entries = 10, entries = [LoopLine ''init'' (start lp) (end' lp)]\<rparr>,
      voice_tracker = \<lparr>limit = 8, voices = []\<rparr>,
      keyboard_mapper = \<lparr>active = Map.empty\<rparr>, midi = False\<rparr>"
  by (simp add: default_TUI_def new_SamplerTUI_def send_initial_params_def items_def
      send_param_update_def send_loop_update_def send_message_def push_log_def push_def
      new_MessageLog_def new_VoiceTracker_def new_KeyboardNoteMapper_def Let_def
      new_ADSR_def ADSR_post_init_def)

lemma default_TUI_started_reliable:
  "default_TUI [] lp =
     \<lparr>client = \<lparr>script = [],
                 calls = [(OSC_PARAM, [OscStr ''attack'', OscFloat 0.01]),
                          (OSC_PARAM, [OscStr ''decay'', OscFloat 0.1]),
                          (OSC_PARAM, [OscStr ''sustain'', OscFloat 0.7]),
                          (OSC_PARAM, [OscStr ''release'', OscFloat 0.5]),
                          (OSC_LOOP, payload lp)]\<rparr>,
      sample_key = ''plasma'', voice_limit = 8, default_velocity = 0.6,
      adsr = new_ADSR, loop_params = lp,
      msg_log = \<lparr>max_entries = 10, entries = [LoopLine ''init'' (start lp) (end' lp)]\<rparr>,
      voice_tracker = \<lparr>limit = 8, voices = []\<rparr>,
      keyboard_mapper = \<lparr>active = Map.empty\<rparr>, midi = False\<rparr>"
  by (simp add: default_TUI_def new_SamplerTUI_def send_initial_params_def items_def
      send_param_update_def send_loop_update_def send_message_def push_log_def push_def
      new_MessageLog_def new_VoiceTracker_def new_KeyboardNoteMapper_def Let_def
      new_ADSR_def ADSR_post_init_def)

lemmas handler_defs =
      payload_def send_message_def Let_def push_log_def push_def
      handle_keyboard_note_def translate_def KEY_MAP_def ord_def send_note_on_def
      send_note_off_def note_on_def note_off_def panic_all_notes_off_def active_notes_def
      new_calls_def count_def
      OSC_NOTE_ON_def OSC_NOTE_OFF_def OSC_PARAM_def OSC_LOOP_def

subsection \<open>What leaves the keyboard mapper alone\<close>

text \<open>Each operation but \<open>handle_keyboard_note\<close> keeps the field \<open>keyboard_mapper\<close>.\<close>

lemma keyboard_mapper_push_log [simp]: "keyboard_mapper (push_log t s) = keyboard_mapper s"
  by (simp add: push_log_def)

lemma keyboard_mapper_send_note_on [simp]:
  "keyboard_mapper (send_note_on n v src s) = keyboard_mapper s"
  by (simp add: send_note_on_def Let_def split: prod.splits option.splits)

lemma keyboard_mapper_send_note_off [simp]:
  "keyboard_mapper (send_note_off n src s) = keyboard_mapper s"
  by (simp add: send_note_off_def Let_def split: prod.splits option.splits)

lemma fold_frame:
  assumes "\<And>x s. g (f x s) = g s"
  shows "g (fold f xs s) = g s"
  by (induction xs arbitrary: s) (simp_all add: assms)

lemma keyboard_mapper_panic [simp]:
  "keyboard_mapper (panic_all_notes_off s) = keyboard_mapper s"
  by (simp add: panic_all_notes_off_def Let_def fold_frame)

lemma keyboard_mapper_poll_midi [simp]:
  "keyboard_mapper (poll_midi pending s) = keyboard_mapper s"
  by (simp add: poll_midi_def fold_frame)

lemma keyboard_mapper_send_param_update [simp]:
  "keyboard_mapper (send_param_update name v s) = keyboard_mapper s"
  by (simp add: send_param_update_def Let_def split: prod.splits option.splits)

lemma keyboard_mapper_send_loop_update [simp]:
  "keyboard_mapper (send_loop_update reason s) = keyboard_mapper s"
  by (simp add: send_loop_update_def Let_def split: prod.splits option.splits)

lemma keyboard_mapper_adjust_loop_start [simp]:
  "keyboard_mapper (snd (adjust_loop_start delta s)) = keyboard_mapper s"
  by (simp add: adjust_loop_start_def Let_def split: prod.splits)

lemma keyboard_mapper_adjust_loop_end [simp]:
  "keyboard_mapper (snd (adjust_loop_end delta s)) = keyboard_mapper s"
  by (simp add: adjust_loop_end_def Let_def split: prod.splits)

lemma keyboard_mapper_handle_loop_keys [simp]:
  "keyboard_mapper (snd (handle_loop_keys key s)) = keyboard_mapper s"
  by (simp add: handle_loop_keys_def Let_def)

lemma keyboard_mapper_handle_adsr_keys:
  "handle_adsr_keys key s = Inr (b, s') \<Longrightarrow> keyboard_mapper s' = keyboard_mapper s"
  by (auto simp: handle_adsr_keys_def Let_def split: option.splits sum.splits prod.splits if_splits)

text \<open>
  C9: only \<open>translate\<close>, called by \<open>handle_keyboard_note\<close>, changes the toggle state of
  the keyboard mapper: panic, a note-off or note-on send, the MIDI poll, a parameter or
  loop update and the loop and ADSR key handlers leave \<open>keyboard_mapper\<close> as it is. So
  on a controller started with the defaults and a working network, pressing \<open>z\<close> turns
  note 60 on, panic releases it, and the next press of \<open>z\<close> sends a note-off for note 60,
  which is no longer active, not a note-on.
\<close>

theorem toggle_state_survives_panic:
  "keyboard_mapper (panic_all_notes_off s) = keyboard_mapper s \<and>
   keyboard_mapper (send_note_off n source s) = keyboard_mapper s \<and>
   keyboard_mapper (send_note_on n v source s) = keyboard_mapper s \<and>
   keyboard_mapper (poll_midi pending s) = keyboard_mapper s \<and>
   keyboard_mapper (send_param_update name v s) = keyboard_mapper s \<and>
   keyboard_mapper (send_loop_update reason s) = keyboard_mapper s \<and>
   keyboard_mapper (snd (handle_loop_keys key s)) = keyboard_mapper s \<and>
   (case handle_adsr_keys key s of
      Inl e \<Rightarrow> True
    | Inr (handled, s') \<Rightarrow> keyboard_mapper s' = keyboard_mapper s) \<and>
   keyboard_mapper (snd (handle_keyboard_note key s)) = snd (translate key (keyboard_mapper s)) \<and>
   (let s0 = default_TUI [] default_loop;
        (h1, s1) = handle_keyboard_note (ord CHR ''z'') s0;
        s2 = panic_all_notes_off s1;
        (h3, s3) = handle_keyboard_note (ord CHR ''z'') s2
    in new_calls s0 s1 = [(OSC_NOTE_ON, [OscStr ''plasma'', OscInt 60, OscFloat 0.6])] \<and>
       active_notes (voice_tracker s1) = [60] \<and>
       new_calls s1 s2 = [(OSC_NOTE_OFF, [OscStr ''plasma'', OscInt 60])] \<and>
       active_notes (voice_tracker s2) = [] \<and>
       new_calls s2 s3 = [(OSC_NOTE_OFF, [OscStr ''plasma'', OscInt 60])])"
proof -
  have adsr: "(case handle_adsr_keys key s of
      Inl e \<Rightarrow> True
    | Inr (handled, s') \<Rightarrow> keyboard_mapper s' = keyboard_mapper s)"
    by (auto simp: keyboard_mapper_handle_adsr_keys split: sum.splits)
  have kbd: "keyboard_mapper (snd (handle_keyboard_note key s)) = snd (translate key (keyboard_mapper s))"
    by (simp add: handle_keyboard_note_def Let_def split: prod.splits option.splits)
  have scenario: "(let s0 = default_TUI [] default_loop;
        (h1, s1) = handle_keyboard_note (ord CHR ''z'') s0;
        s2 = panic_all_notes_off s1;
        (h3, s3) = handle_keyboard_note (ord CHR ''z'') s2
    in new_calls s0 s1 = [(OSC_NOTE_ON, [OscStr ''plasma'', OscInt 60, OscFloat 0.6])] \<and>
       active_notes (voice_tracker s1) = [60] \<and>
       new_calls s1 s2 = [(OSC_NOTE_OFF, [OscStr ''plasma'', OscInt 60])] \<and>
       active_notes (voice_tracker s2) = [] \<and>
       new_calls s2 s3 = [(OSC_NOTE_OFF, [OscStr ''plasma'', OscInt 60])])"
    unfolding default_TUI_started_reliable by (simp add: handler_defs)
  show ?thesis
    using adsr kbd scenario by simp
qed

subsection \<open>Sends and panic\<close>

text \<open>
  A send consumes one outcome of the script and records the message. A loop of
  note-off sends hands one message per note to the client and removes exactly the notes
  whose send is delivered.
\<close>

lemma send_message_outcome:
  "send_message address args c =
     (case script c of [] \<Rightarrow> None | r # rs \<Rightarrow> r,
      c\<lparr>script := tl (script c), calls := calls c @ [(address, args)]\<rparr>)"
  by (cases "script c") (simp_all add: send_message_def)

lemma send_note_off_delivered:
  assumes "script (client s) = [] \<or> (\<exists>rs. script (client s) = None # rs)"
  shows "send_note_off n source s =
     push_log (NoteOffLine source n)
       (s\<lparr>client := (client s)\<lparr>script := tl (script (client s)),
                                 calls := calls (client s) @ [note_off_message s n]\<rparr>,
          voice_tracker := note_off n (voice_tracker s)\<rparr>)"
  using assms
  by (auto simp: send_note_off_def send_message_outcome note_off_message_def Let_def)

lemma send_note_off_failed:
  assumes "script (client s) = Some e # rs"
  shows "send_note_off n source s =
     push_log (FailedNoteOff e)
       (s\<lparr>client := (client s)\<lparr>script := rs,
                                 calls := calls (client s) @ [note_off_message s n]\<rparr>\<rparr>)"
  using assms
  by (simp add: send_note_off_def send_message_outcome note_off_message_def Let_def)

lemma send_note_off_fields:
  "sample_key (send_note_off n source s) = sample_key s"
  "calls (client (send_note_off n source s)) = calls (client s) @ [note_off_message s n]"
  "script (client (send_note_off n source s)) = tl (script (client s))"
  by (simp_all add: send_note_off_def send_message_outcome note_off_message_def Let_def
      push_log_def split: option.splits)

lemma voices_send_note_off:
  "voices (voice_tracker (send_note_off n source s)) =
     filter (\<lambda>m. m \<notin> set (delivered [n] (script (client s)))) (voices (voice_tracker s))"
proof (cases "script (client s)")
  case Nil
  then show ?thesis
    by (simp add: send_note_off_delivered push_log_def note_off_def removeAll_filter_not_eq)
      metis
next
  case (Cons r rs)
  show ?thesis
  proof (cases r)
    case None
    with Cons show ?thesis
      by (simp add: send_note_off_delivered push_log_def note_off_def removeAll_filter_not_eq)
        metis
  next
    case (Some e)
    with Cons show ?thesis
      by (simp add: send_note_off_failed push_log_def)
  qed
qed

lemma delivered_Cons:
  "set (delivered (n # ns) outcomes) = set (delivered [n] outcomes) \<union> set (delivered ns (tl outcomes))"
proof (cases outcomes)
  case Nil
  then show ?thesis by simp
next
  case (Cons r rs)
  then show ?thesis by (cases r) simp_all
qed

lemma fold_send_note_off:
  "sample_key (fold (\<lambda>n s. send_note_off n source s) ns s) = sample_key s \<and>
   calls (client (fold (\<lambda>n s. send_note_off n source s) ns s)) =
     calls (client s) @ map (note_off_message s) ns \<and>
   voices (voice_tracker (fold (\<lambda>n s. send_note_off n source s) ns s)) =
     filter (\<lambda>m. m \<notin> set (delivered ns (script (client s)))) (voices (voice_tracker s))"
proof (induction ns arbitrary: s)
  case Nil
  then show ?case by simp
next
  case (Cons n ns)
  let ?s = "send_note_off n source s"
  have m: "note_off_message ?s = note_off_message s"
    by (simp add: note_off_message_def send_note_off_fields fun_eq_iff)
  show ?case
    using Cons.IH [of ?s]
    by (simp add: send_note_off_fields m voices_send_note_off delivered_Cons [of n ns] conj_commute)
qed

lemma delivered_all:
  "set (take (length ns) outcomes) \<subseteq> {None} \<Longrightarrow> delivered ns outcomes = ns"
proof (induction ns arbitrary: outcomes)
  case Nil
  then show ?case by simp
next
  case (Cons n ns)
  show ?case
  proof (cases outcomes)
    case Nil
    with Cons.IH [of "[]"] show ?thesis by simp
  next
    case (Cons r rs)
    with Cons.prems Cons.IH [of rs] show ?thesis by simp
  qed
qed

lemma new_calls_append:
  "calls (client s') = calls (client s) @ ms \<Longrightarrow> new_calls s s' = ms"
  by (simp add: new_calls_def)

text \<open>
  C7, as stated, fails when a send fails: \<open>send_note_off\<close> returns before it removes the
  note. On the default controller, \<open>z\<close> turns note 60 on; when the network then fails,
  panic leaves note 60 in the tracker and \<open>count\<close> at 1.
\<close>

theorem panic_count_counterexample:
  "active_notes (voice_tracker (snd (handle_keyboard_note (ord CHR ''z'')
      (default_TUI [None, None, None, None, None, None, Some ''Network is unreachable'']
         default_loop)))) = [60] \<and>
   count (voice_tracker (panic_all_notes_off (snd (handle_keyboard_note (ord CHR ''z'')
      (default_TUI [None, None, None, None, None, None, Some ''Network is unreachable'']
         default_loop))))) = 1"
  by (simp add: default_TUI_started handler_defs)

text \<open>
  C7, amended: panic hands exactly one note-off message per note of the snapshot taken
  before it to the client, in the order of the snapshot, so n messages for n active notes.
  The notes whose send is delivered are removed from the tracker and those whose send
  fails stay; when all n sends are delivered \<open>count\<close> becomes 0. With no active note,
  panic sends nothing and only pushes the line \<open>PANIC: no active notes\<close>.
\<close>

theorem panic_releases_delivered:
  "(let snapshot = active_notes (voice_tracker s);
        s' = panic_all_notes_off s
    in new_calls s s' = map (note_off_message s) snapshot \<and>
       length (new_calls s s') = length snapshot \<and>
       active_notes (voice_tracker s') =
         filter (\<lambda>n. n \<notin> set (delivered snapshot (script (client s)))) snapshot \<and>
       (set (take (length snapshot) (script (client s))) \<subseteq> {None} \<longrightarrow>
          count (voice_tracker s') = 0) \<and>
       (snapshot = [] \<longrightarrow> s' = push_log PanicNoActive s))"
proof -
  let ?f = "\<lambda>n s. send_note_off n ''PANIC'' s"
  let ?snap = "voices (voice_tracker s)"
  have c: "calls (client (panic_all_notes_off s)) = calls (client s) @ map (note_off_message s) ?snap"
    using fold_send_note_off [of "''PANIC''" ?snap s]
    by (simp add: panic_all_notes_off_def active_notes_def Let_def push_log_def)
  have v: "voices (voice_tracker (panic_all_notes_off s)) =
      filter (\<lambda>n. n \<notin> set (delivered ?snap (script (client s)))) ?snap"
    using fold_send_note_off [of "''PANIC''" ?snap s]
    by (simp add: panic_all_notes_off_def active_notes_def Let_def push_log_def)
  have z: "count (voice_tracker (panic_all_notes_off s)) = 0"
    if "set (take (length ?snap) (script (client s))) \<subseteq> {None}"
    using delivered_all [OF that] by (simp add: v count_def)
  have e: "panic_all_notes_off s = push_log PanicNoActive s" if "?snap = []"
    using that by (simp add: panic_all_notes_off_def active_notes_def)
  show ?thesis
    using new_calls_append [OF c] v z e by (simp add: Let_def active_notes_def)
qed

theorem panic_releases_delivered_witness:
  "count (voice_tracker (panic_all_notes_off
      (snd (handle_keyboard_note (ord CHR ''b'')
        (snd (handle_keyboard_note (ord CHR ''c'')
          (snd (handle_keyboard_note (ord CHR ''z'') (default_TUI [] default_loop))))))))) = 0 \<and>
   new_calls
      (snd (handle_keyboard_note (ord CHR ''b'')
        (snd (handle_keyboard_note (ord CHR ''c'')
          (snd (handle_keyboard_note (ord CHR ''z'') (default_TUI [] default_loop)))))))
      (panic_all_notes_off
      (snd (handle_keyboard_note (ord CHR ''b'')
        (snd (handle_keyboard_note (ord CHR ''c'')
          (snd (handle_keyboard_note (ord CHR ''z'') (default_TUI [] default_loop)))))))) =
     [(OSC_NOTE_OFF, [OscStr ''plasma'', OscInt 60]),
      (OSC_NOTE_OFF, [OscStr ''plasma'', OscInt 64]),
      (OSC_NOTE_OFF, [OscStr ''plasma'', OscInt 67])] \<and>
   panic_all_notes_off (default_TUI [] default_loop) =
     push_log PanicNoActive (default_TUI [] default_loop)"
proof -
  define s where "s = snd (handle_keyboard_note (ord CHR ''b'')
        (snd (handle_keyboard_note (ord CHR ''c'')
          (snd (handle_keyboard_note (ord CHR ''z'') (default_TUI [] default_loop))))))"
  have fields: "active_notes (voice_tracker s) = [60, 64, 67]" "script (client s) = []"
    "sample_key s = ''plasma''"
    unfolding s_def default_TUI_started_reliable by (simp_all add: handler_defs)
  have none: "active_notes (voice_tracker (default_TUI [] default_loop)) = []"
    unfolding default_TUI_started_reliable by (simp add: active_notes_def)
  have "count (voice_tracker (panic_all_notes_off s)) = 0 \<and>
      new_calls s (panic_all_notes_off s) =
        [(OSC_NOTE_OFF, [OscStr ''plasma'', OscInt 60]),
         (OSC_NOTE_OFF, [OscStr ''plasma'', OscInt 64]),
         (OSC_NOTE_OFF, [OscStr ''plasma'', OscInt 67])]"
    using panic_releases_delivered [of s] fields
    by (simp add: Let_def note_off_message_def)
  moreover have "panic_all_notes_off (default_TUI [] default_loop) =
      push_log PanicNoActive (default_TUI [] default_loop)"
    using panic_releases_delivered [of "default_TUI [] default_loop"] none
    by (simp add: Let_def)
  ultimately show ?thesis
    unfolding s_def by simp
qed

subsection \<open>A failing send\<close>














subsection \<open>Key dispatch\<close>

text \<open>
  C2 at a failing input: \<open>j\<close> is a loop key (loop end, one fine step down) and a note
  key (note 70). With the loop window at its minimal span (start 0, end 0.02, minimal
  span 0.02) the adjustment changes nothing, \<open>handle_loop_keys\<close> returns false, and
  \<open>run\<close> goes on to the ADSR handler and then to the keyboard handler, which turns note
  70 on: the loop key is not consumed by the loop handler.
\<close>

theorem loop_key_falls_through:
  "ord CHR ''j'' \<in> set loop_keys \<and>
   (case dispatch_key (ord CHR ''j'') (default_TUI [] (new_LoopParameters 0 0.02 0.02 0.01 0.05)) of
      Inl e \<Rightarrow> False
    | Inr (stop, called, s') \<Rightarrow>
        called = [LoopKeys, AdsrKeys, KeyboardNote] \<and>
        loop_params s' = loop_params (default_TUI [] (new_LoopParameters 0 0.02 0.02 0.01 0.05)) \<and>
        new_calls (default_TUI [] (new_LoopParameters 0 0.02 0.02 0.01 0.05)) s' =
          [(OSC_NOTE_ON, [OscStr ''plasma'', OscInt 70, OscFloat 0.6])] \<and>
        active_notes (voice_tracker s') = [70] \<and>
        active (keyboard_mapper s') 70 = Some True)"
proof -
  have lp: "new_LoopParameters 0 0.02 0.02 0.01 0.05 =
      \<lparr>start = 0, end' = 0.02, min_span = 0.02, step = 0.01, coarse_step = 0.05, revision = 0\<rparr>"
    by (simp add: new_LoopParameters_def post_init_def clamp_def Let_def)
  show ?thesis
    unfolding lp default_TUI_started_reliable
    by (simp add: loop_keys_def clamp_def handler_defs dispatch_key_def handle_loop_keys_def
      adjust_loop_start_def adjust_loop_end_def adjust_start_def adjust_end_def
      KEY_LEFT_def KEY_RIGHT_def KEY_UP_def KEY_DOWN_def
      handle_adsr_keys_def adsr_mapping_def)
qed

subsection \<open>The velocity of keyboard notes\<close>

text \<open>
  No operation writes \<open>default_velocity\<close> or \<open>sample_key\<close>, and each appends to the
  calls of the client; of the messages a key can cause only the keyboard handler's are
  note-ons.
\<close>

lemma settings_push_log [simp]:
  "default_velocity (push_log t s) = default_velocity s"
  "sample_key (push_log t s) = sample_key s"
  "calls (client (push_log t s)) = calls (client s)"
  by (simp_all add: push_log_def)

lemma settings_send_note_on [simp]:
  "default_velocity (send_note_on n v source s) = default_velocity s"
  "sample_key (send_note_on n v source s) = sample_key s"
  "calls (client (send_note_on n v source s)) =
     calls (client s) @ [(OSC_NOTE_ON, [OscStr (sample_key s), OscInt n, OscFloat v])]"
  by (simp_all add: send_note_on_def send_message_outcome Let_def split: option.splits)

lemma settings_send_note_off [simp]:
  "default_velocity (send_note_off n source s) = default_velocity s"
  "sample_key (send_note_off n source s) = sample_key s"
  by (simp_all add: send_note_off_def send_message_outcome Let_def split: option.splits)

lemma settings_send_param_update [simp]:
  "default_velocity (send_param_update name v s) = default_velocity s"
  "sample_key (send_param_update name v s) = sample_key s"
  "calls (client (send_param_update name v s)) =
     calls (client s) @ [(OSC_PARAM, [OscStr name, OscFloat v])]"
  by (simp_all add: send_param_update_def send_message_outcome Let_def split: option.splits)

lemma settings_send_loop_update [simp]:
  "default_velocity (send_loop_update reason s) = default_velocity s"
  "sample_key (send_loop_update reason s) = sample_key s"
  "calls (client (send_loop_update reason s)) =
     calls (client s) @ [(OSC_LOOP, payload (loop_params s))]"
  by (simp_all add: send_loop_update_def send_message_outcome Let_def split: option.splits)

lemma settings_poll_midi [simp]:
  "default_velocity (poll_midi pending s) = default_velocity s"
  "sample_key (poll_midi pending s) = sample_key s"
  by (simp_all add: poll_midi_def fold_frame)

lemma settings_panic [simp]:
  "default_velocity (panic_all_notes_off s) = default_velocity s"
  "sample_key (panic_all_notes_off s) = sample_key s"
  by (simp_all add: panic_all_notes_off_def Let_def fold_frame)

lemma calls_panic:
  "calls (client (panic_all_notes_off s)) =
     calls (client s) @ map (note_off_message s) (active_notes (voice_tracker s))"
  using fold_send_note_off [of "''PANIC''" "voices (voice_tracker s)" s]
  by (simp add: panic_all_notes_off_def active_notes_def Let_def)

text \<open>The three key handlers: what they keep and what they hand to the client.\<close>

lemma handle_loop_keys_sends:
  "default_velocity (snd (handle_loop_keys key s)) = default_velocity s \<and>
   sample_key (snd (handle_loop_keys key s)) = sample_key s \<and>
   (\<exists>ms. calls (client (snd (handle_loop_keys key s))) = calls (client s) @ ms \<and>
         (\<forall>m \<in> set ms. fst m = OSC_LOOP))"
proof -
  have start: "default_velocity (snd (adjust_loop_start d s)) = default_velocity s \<and>
      sample_key (snd (adjust_loop_start d s)) = sample_key s \<and>
      (\<exists>ms. calls (client (snd (adjust_loop_start d s))) = calls (client s) @ ms \<and>
            (\<forall>m \<in> set ms. fst m = OSC_LOOP))" for d
    by (simp add: adjust_loop_start_def Let_def split: prod.splits)
  have "end": "default_velocity (snd (adjust_loop_end d s)) = default_velocity s \<and>
      sample_key (snd (adjust_loop_end d s)) = sample_key s \<and>
      (\<exists>ms. calls (client (snd (adjust_loop_end d s))) = calls (client s) @ ms \<and>
            (\<forall>m \<in> set ms. fst m = OSC_LOOP))" for d
    by (simp add: adjust_loop_end_def Let_def split: prod.splits)
  show ?thesis
    using start "end" by (simp add: handle_loop_keys_def Let_def)
qed

lemma handle_adsr_keys_sends:
  assumes "handle_adsr_keys key s = Inr (h, s')"
  shows "default_velocity s' = default_velocity s \<and> sample_key s' = sample_key s \<and>
         (\<exists>ms. calls (client s') = calls (client s) @ ms \<and> (\<forall>m \<in> set ms. fst m = OSC_PARAM))"
  using assms
  by (auto simp: handle_adsr_keys_def Let_def
      split: option.splits sum.splits prod.splits if_splits)

lemma handle_keyboard_note_sends:
  "default_velocity (snd (handle_keyboard_note key s)) = default_velocity s \<and>
   sample_key (snd (handle_keyboard_note key s)) = sample_key s \<and>
   (\<exists>ms. calls (client (snd (handle_keyboard_note key s))) = calls (client s) @ ms \<and>
         (\<forall>m \<in> set ms. fst m = OSC_NOTE_ON \<longrightarrow>
            (\<exists>n. snd m = [OscStr (sample_key s), OscInt n, OscFloat (default_velocity s)])))"
  by (simp add: handle_keyboard_note_def Let_def send_note_off_fields note_off_message_def
      OSC_NOTE_ON_def OSC_NOTE_OFF_def split: prod.splits option.splits)

lemma OSC_distinct:
  "OSC_LOOP \<noteq> OSC_NOTE_ON" "OSC_PARAM \<noteq> OSC_NOTE_ON" "OSC_NOTE_OFF \<noteq> OSC_NOTE_ON"
  by (simp_all add: OSC_LOOP_def OSC_PARAM_def OSC_NOTE_ON_def OSC_NOTE_OFF_def)

lemma dispatch_key_sends:
  assumes "dispatch_key key s = Inr (stop, called, s')"
  shows "default_velocity s' = default_velocity s \<and> sample_key s' = sample_key s \<and>
         (\<exists>ms. calls (client s') = calls (client s) @ ms \<and>
               (\<forall>m \<in> set ms. fst m = OSC_NOTE_ON \<longrightarrow>
                  (\<exists>n. snd m = [OscStr (sample_key s), OscInt n, OscFloat (default_velocity s)])))"
proof -
  let ?ok = "\<lambda>m. fst m = OSC_NOTE_ON \<longrightarrow>
      (\<exists>n. snd m = [OscStr (sample_key s), OscInt n, OscFloat (default_velocity s)])"
  consider (idle) "key = -1"
    | (quit) "key \<noteq> -1" "key = ord CHR ''q'' \<or> key = ord CHR ''Q''"
    | (panic) "key \<noteq> -1" "\<not> (key = ord CHR ''q'' \<or> key = ord CHR ''Q'')" "key = ord CHR '';''"
    | (keys) "key \<noteq> -1" "\<not> (key = ord CHR ''q'' \<or> key = ord CHR ''Q'')" "key \<noteq> ord CHR '';''"
    by blast
  then show ?thesis
  proof cases
    case idle
    with assms show ?thesis by (simp add: dispatch_key_def)
  next
    case quit
    with assms show ?thesis by (auto simp: dispatch_key_def)
  next
    case panic
    with assms have s': "s' = panic_all_notes_off s"
      by (simp add: dispatch_key_def)
    have "\<forall>m \<in> set (map (note_off_message s) (active_notes (voice_tracker s))). ?ok m"
      by (simp add: note_off_message_def OSC_distinct)
    then show ?thesis
      unfolding s' using calls_panic [of s] by (simp del: set_map)
  next
    case keys
    obtain b1 s1 where l: "handle_loop_keys key s = (b1, s1)"
      by (cases "handle_loop_keys key s")
    from handle_loop_keys_sends [of key s] l
    obtain ms1 where s1: "default_velocity s1 = default_velocity s" "sample_key s1 = sample_key s"
      "calls (client s1) = calls (client s) @ ms1" "\<forall>m \<in> set ms1. fst m = OSC_LOOP"
      by auto
    have ok1: "\<forall>m \<in> set ms1. ?ok m"
      using s1(4) OSC_distinct(1) by metis
    show ?thesis
    proof (cases b1)
      case True
      with assms keys l have "s' = s1"
        by (simp add: dispatch_key_def)
      with s1 ok1 show ?thesis
        by blast
    next
      case False
      with assms keys l obtain b2 s2 where a: "handle_adsr_keys key s1 = Inr (b2, s2)"
        by (auto simp: dispatch_key_def split: sum.splits)
      from handle_adsr_keys_sends [OF a]
      obtain ms2 where s2: "default_velocity s2 = default_velocity s1" "sample_key s2 = sample_key s1"
        "calls (client s2) = calls (client s1) @ ms2" "\<forall>m \<in> set ms2. fst m = OSC_PARAM"
        by auto
      have ok2: "\<forall>m \<in> set ms2. ?ok m"
        using s2(4) OSC_distinct(2) by metis
      show ?thesis
      proof (cases b2)
        case True
        with assms keys l a False have s': "s' = s2"
          by (simp add: dispatch_key_def)
        have "calls (client s') = calls (client s) @ (ms1 @ ms2)"
          using s1 s2 s' by simp
        moreover have "\<forall>m \<in> set (ms1 @ ms2). ?ok m"
          using ok1 ok2 by auto
        ultimately show ?thesis
          using s1 s2 s' by (metis (no_types, lifting))
      next
        case b2: False
        with assms keys l a False have s': "s' = snd (handle_keyboard_note key s2)"
          by (simp add: dispatch_key_def Let_def split: prod.splits)
        from handle_keyboard_note_sends [of key s2]
        obtain ms3 where s3: "default_velocity s' = default_velocity s2" "sample_key s' = sample_key s2"
          "calls (client s') = calls (client s2) @ ms3"
          "\<forall>m \<in> set ms3. fst m = OSC_NOTE_ON \<longrightarrow>
             (\<exists>n. snd m = [OscStr (sample_key s2), OscInt n, OscFloat (default_velocity s2)])"
          unfolding s' by auto
        have "calls (client s') = calls (client s) @ (ms1 @ ms2 @ ms3)"
          using s1 s2 s3 by simp
        moreover have "\<forall>m \<in> set ms3. ?ok m"
          using s1 s2 s3(4) by simp
        then have "\<forall>m \<in> set (ms1 @ ms2 @ ms3). ?ok m"
          using ok1 ok2 by auto
        ultimately show ?thesis
          using s1 s2 s3 by (metis (no_types, lifting))
      qed
    qed
  qed
qed

lemma tick_settings:
  assumes "tick input s = Inr (stop, s')"
  shows "default_velocity s' = default_velocity s \<and> sample_key s' = sample_key s"
proof -
  from assms obtain called where "dispatch_key (snd input) (poll_midi (fst input) s) = Inr (stop, called, s')"
    by (auto simp: tick_def Let_def split: sum.splits)
  from dispatch_key_sends [OF this] show ?thesis by simp
qed

lemma ticks_settings:
  assumes "ticks inputs s = Inr s'"
  shows "default_velocity s' = default_velocity s \<and> sample_key s' = sample_key s"
  using assms
proof (induction inputs arbitrary: s)
  case Nil
  then show ?case by simp
next
  case (Cons input inputs)
  from Cons.prems obtain stop s1 where t: "tick input s = Inr (stop, s1)"
    by (auto split: sum.splits)
  show ?case
  proof (cases stop)
    case True
    with Cons.prems t tick_settings [OF t] show ?thesis by simp
  next
    case False
    with Cons.prems t have "ticks inputs s1 = Inr s'" by simp
    from Cons.IH [OF this] tick_settings [OF t] show ?thesis by simp
  qed
qed

lemma new_SamplerTUI_settings:
  "default_velocity (new_SamplerTUI c key lmt v a lp m) = max 0 (min 1 v) \<and>
   sample_key (new_SamplerTUI c key lmt v a lp m) = key"
  by (simp add: new_SamplerTUI_def Let_def send_initial_params_def fold_frame case_prod_unfold)

text \<open>
  C10: the constructor stores \<open>max 0.0 (min 1.0 v)\<close> as the default velocity, whatever
  \<open>v\<close> is, and nothing changes it afterwards. So in every pass of the loop, after any
  input, each note-on message that the handling of a key hands to the client carries this
  velocity, which lies in \<open>[0, 1]\<close>.
\<close>

theorem keyboard_velocity_clamped:
  assumes "run inputs (new_SamplerTUI c key lmt v a lp m) = Inr s"
      and "dispatch_key k (poll_midi pending s) = Inr (stop, called, s')"
      and "msg \<in> set (new_calls (poll_midi pending s) s')"
      and "fst msg = OSC_NOTE_ON"
  shows "default_velocity (new_SamplerTUI c key lmt v a lp m) = max 0.0 (min 1.0 v) \<and>
         default_velocity s = max 0.0 (min 1.0 v) \<and>
         (\<exists>n vel. snd msg = [OscStr key, OscInt n, OscFloat vel] \<and>
                  vel = max 0.0 (min 1.0 v) \<and> 0 \<le> vel \<and> vel \<le> 1)"
proof -
  have s: "default_velocity s = max 0 (min 1 v)" "sample_key s = key"
    using ticks_settings [OF assms(1) [unfolded run_def]] new_SamplerTUI_settings [of c key lmt v a lp m]
    by simp_all
  from dispatch_key_sends [OF assms(2)]
  obtain ms where ms: "calls (client s') = calls (client (poll_midi pending s)) @ ms"
    "\<forall>m \<in> set ms. fst m = OSC_NOTE_ON \<longrightarrow>
       (\<exists>n. snd m = [OscStr (sample_key (poll_midi pending s)), OscInt n,
                     OscFloat (default_velocity (poll_midi pending s))])"
    by blast
  have "new_calls (poll_midi pending s) s' = ms"
    using ms(1) by (rule new_calls_append)
  with assms(3,4) ms(2) obtain n where "snd msg = [OscStr key, OscInt n, OscFloat (max 0 (min 1 v))]"
    using s by auto
  then show ?thesis
    using s new_SamplerTUI_settings [of c key lmt v a lp m] by simp
qed

lemma new_SamplerTUI_started_reliable:
  "new_SamplerTUI \<lparr>script = [], calls = []\<rparr> key lmt v a lp m =
     \<lparr>client = \<lparr>script = [],
                 calls = [(OSC_PARAM, [OscStr ''attack'', OscFloat (attack a)]),
                          (OSC_PARAM, [OscStr ''decay'', OscFloat (decay a)]),
                          (OSC_PARAM, [OscStr ''sustain'', OscFloat (sustain a)]),
                          (OSC_PARAM, [OscStr ''release'', OscFloat (release a)]),
                          (OSC_LOOP, payload lp)]\<rparr>,
      sample_key = key, voice_limit = lmt, default_velocity = max 0.0 (min 1.0 v),
      adsr = a, loop_params = lp,
      msg_log = \<lparr>max_entries = 10, entries = [LoopLine ''init'' (start lp) (end' lp)]\<rparr>,
      voice_tracker = \<lparr>limit = lmt, voices = []\<rparr>,
      keyboard_mapper = \<lparr>active = Map.empty\<rparr>, midi = m\<rparr>"
  by (simp add: new_SamplerTUI_def send_initial_params_def items_def
      send_param_update_def send_loop_update_def send_message_def push_log_def push_def
      new_MessageLog_def new_VoiceTracker_def new_KeyboardNoteMapper_def Let_def)

theorem keyboard_velocity_clamped_witness:
  "\<exists>s s'. run [] (new_SamplerTUI \<lparr>script = [], calls = []\<rparr> ''plasma'' 8 1.5 new_ADSR
                    default_loop False) = Inr s \<and>
          dispatch_key (ord CHR ''z'') (poll_midi [] s) =
            Inr (False, [LoopKeys, AdsrKeys, KeyboardNote], s') \<and>
          (OSC_NOTE_ON, [OscStr ''plasma'', OscInt 60, OscFloat 1]) \<in>
            set (new_calls (poll_midi [] s) s') \<and>
          default_velocity (new_SamplerTUI \<lparr>script = [], calls = []\<rparr> ''plasma'' 8 1.5 new_ADSR
                    default_loop False) = 1 \<and>
          default_velocity s = 1 \<and>
          (\<exists>n vel. snd (OSC_NOTE_ON, [OscStr ''plasma'', OscInt 60, OscFloat 1]) =
                     [OscStr ''plasma'', OscInt n, OscFloat vel] \<and> 0 \<le> vel \<and> vel \<le> 1)"
proof -
  let ?s0 = "new_SamplerTUI \<lparr>script = [], calls = []\<rparr> ''plasma'' 8 1.5 new_ADSR default_loop False"
  let ?m = "(OSC_NOTE_ON, [OscStr ''plasma'', OscInt 60, OscFloat 1])"
  define s where "s = push_log Ready ?s0"
  have r: "run [] ?s0 = Inr s"
    by (simp add: run_def s_def)
  have "case dispatch_key (ord CHR ''z'') (poll_midi [] s) of
          Inl e \<Rightarrow> False
        | Inr (stop, called, s') \<Rightarrow>
            \<not> stop \<and> called = [LoopKeys, AdsrKeys, KeyboardNote] \<and>
            new_calls (poll_midi [] s) s' = [?m]"
    unfolding s_def new_SamplerTUI_started_reliable
    by (simp add: poll_midi_def handler_defs dispatch_key_def handle_loop_keys_def
        KEY_LEFT_def KEY_RIGHT_def KEY_UP_def KEY_DOWN_def handle_adsr_keys_def adsr_mapping_def)
  then obtain s' where d: "dispatch_key (ord CHR ''z'') (poll_midi [] s) =
        Inr (False, [LoopKeys, AdsrKeys, KeyboardNote], s')"
    and n: "?m \<in> set (new_calls (poll_midi [] s) s')"
    by (auto split: sum.splits)
  have a: "fst ?m = OSC_NOTE_ON" by simp
  show ?thesis
    using keyboard_velocity_clamped [OF r d n a] r d n by auto
qed

end
